theory Spec2Isabelle
  imports Main "HOL-Library.Word" "HOL-Library.Multiset" "HOL-Library.List_Lexorder"
begin

section \<open>JavaScript values used by \<open>src/App.tsx\<close>\<close>

text \<open>
  A JavaScript string is a finite sequence of 16-bit code units. String literals of the
  program are ASCII and are written through \<open>js\<close>.
\<close>

type_synonym jsstring = "16 word list"

definition js :: "string \<Rightarrow> jsstring" where
  "js s = map of_char s"

text \<open>
  A JavaScript number is an IEEE double. The numbers this program computes are \<open>NaN\<close>,
  the two infinities and doubles with an integral value; \<open>Num\<close> carries that value.
  The one fraction, \<open>minutes / 60\<close>, is floored at once and is modelled together with its
  \<open>Math.floor\<close>. The sign of zero is not kept: the program cannot observe it (\<open>-0 > 0\<close>
  is false, \<open>-0\<close> prints as \<open>0\<close>, and the sort reads \<open>-0\<close> as \<open>+0\<close>).
\<close>

datatype number = NaN | Num int | PosInf | NegInf

subsection \<open>Rounding to a double\<close>

text \<open>The number of binary digits of a non-negative integer.\<close>

function bit_length :: "int \<Rightarrow> nat" where
  "bit_length n = (if n \<le> 0 then 0 else Suc (bit_length (n div 2)))"
  by pat_completeness auto

termination
  by (relation "measure nat") auto

declare bit_length.simps [simp del]

text \<open>
  The quotient \<open>a / b\<close> of a non-negative \<open>a\<close> and a positive \<open>b\<close>, rounded to the
  nearest integer, a tie to the even one.
\<close>

definition rne :: "int \<Rightarrow> int \<Rightarrow> int" where
  "rne a b =
     (let q = a div b; r = a mod b
      in if b < 2 * r \<or> (2 * r = b \<and> odd q) then q + 1 else q)"

text \<open>
  The double nearest to a non-negative integer: exact below \<open>2 ^ 53\<close>, above it the 53
  leading binary digits rounded to nearest, ties to even; \<open>None\<close> when the result is
  beyond the largest double, which is \<open>Infinity\<close>.
\<close>

definition round_double :: "int \<Rightarrow> int option" where
  "round_double n =
     (if n < 2 ^ 53 then Some n
      else let e = bit_length n - 53;
               v = rne n (2 ^ e) * 2 ^ e
           in if v < 2 ^ 1024 then Some v else None)"

definition double_of_int :: "int \<Rightarrow> number" where
  "double_of_int z =
     (case round_double \<bar>z\<bar> of
        None \<Rightarrow> if z < 0 then NegInf else PosInf
      | Some v \<Rightarrow> Num (if z < 0 then - v else v))"

subsection \<open>Arithmetic\<close>

text \<open>The \<open>-\<close> operator: the exact difference, rounded to a double.\<close>

fun num_sub :: "number \<Rightarrow> number \<Rightarrow> number" where
  "num_sub (Num a) (Num b) = double_of_int (a - b)"
| "num_sub (Num a) PosInf = NegInf"
| "num_sub (Num a) NegInf = PosInf"
| "num_sub PosInf (Num b) = PosInf"
| "num_sub PosInf NegInf = PosInf"
| "num_sub NegInf (Num b) = NegInf"
| "num_sub NegInf PosInf = NegInf"
| "num_sub PosInf PosInf = NaN"
| "num_sub NegInf NegInf = NaN"
| "num_sub NaN y = NaN"
| "num_sub x NaN = NaN"

text \<open>
  The fraction \<open>m / (d * 2 ^ e)\<close> as a pair of numerator and denominator, for an
  exponent \<open>e\<close> of either sign.
\<close>

definition scaled :: "int \<Rightarrow> int \<Rightarrow> int \<Rightarrow> int \<times> int" where
  "scaled m d e = (if 0 \<le> e then (m, d * 2 ^ nat e) else (m * 2 ^ nat (- e), d))"

text \<open>
  The exponent \<open>e\<close> of the double nearest to \<open>m / d\<close>, for positive \<open>m\<close> and \<open>d\<close>: the
  one for which \<open>m / (d * 2 ^ e)\<close> lies from \<open>2 ^ 52\<close> up to \<open>2 ^ 53\<close>.
\<close>

definition quotient_exponent :: "int \<Rightarrow> int \<Rightarrow> int" where
  "quotient_exponent m d =
     (let e0 = int (bit_length m) - int (bit_length d) - 53;
          (a, b) = scaled m d e0
      in if a < 2 ^ 53 * b then e0 else e0 + 1)"

text \<open>
  \<open>Math.floor(z / d)\<close> for a positive integer \<open>d\<close> (here 60, so that the quotient of a
  double neither overflows nor underflows): the quotient is rounded to a double, with
  53 binary digits \<open>M\<close> and exponent \<open>e\<close>, and that double is floored.
\<close>

definition floor_quotient :: "int \<Rightarrow> int \<Rightarrow> int" where
  "floor_quotient z d =
     (if z = 0 then 0
      else let m = \<bar>z\<bar>;
               e = quotient_exponent m d;
               (a, b) = scaled m d e;
               M = (if z < 0 then - rne a b else rne a b)
           in if 0 \<le> e then M * 2 ^ nat e else M div 2 ^ nat (- e))"

fun Math_floor_div :: "number \<Rightarrow> int \<Rightarrow> number" where
  "Math_floor_div (Num a) d = Num (floor_quotient a d)"
| "Math_floor_div NaN d = NaN"
| "Math_floor_div PosInf d = PosInf"
| "Math_floor_div NegInf d = NegInf"

text \<open>
  The \<open>%\<close> operator with a finite non-zero divisor: the remainder is exact, it
  truncates, and its sign is the dividend's; an infinite dividend gives \<open>NaN\<close>.
\<close>

fun num_rem :: "number \<Rightarrow> int \<Rightarrow> number" where
  "num_rem (Num a) d = Num (sgn a * (\<bar>a\<bar> mod \<bar>d\<bar>))"
| "num_rem NaN d = NaN"
| "num_rem PosInf d = NaN"
| "num_rem NegInf d = NaN"

text \<open>The \<open>>\<close> operator: every comparison with \<open>NaN\<close> is false.\<close>

fun num_gt :: "number \<Rightarrow> number \<Rightarrow> bool" where
  "num_gt (Num a) (Num b) = (b < a)"
| "num_gt PosInf (Num b) = True"
| "num_gt PosInf NegInf = True"
| "num_gt (Num a) NegInf = True"
| "num_gt x y = False"

subsection \<open>Number to string, as a template literal does it\<close>

definition digit_unit :: "int \<Rightarrow> 16 word" where
  "digit_unit d = of_int (48 + d)"

text \<open>The decimal digits of a non-negative integer.\<close>

function decimal :: "int \<Rightarrow> jsstring" where
  "decimal n = (if n < 10 then [digit_unit n] else decimal (n div 10) @ [digit_unit (n mod 10)])"
  by pat_completeness auto

termination
  by (relation "measure nat") auto

declare decimal.simps [simp del]

text \<open>
  A double beyond \<open>2 ^ 53\<close> prints with the fewest significant digits that read back as
  the same double. For a power of ten \<open>p\<close> the candidates are the two multiples of \<open>p\<close>
  around \<open>x\<close>; of two that read back, the nearer is taken, the one with the even last
  digit on a tie.
\<close>

definition candidate :: "int \<Rightarrow> int \<Rightarrow> int option" where
  "candidate x p =
     (let lo = (x div p) * p;
          hi = lo + p;
          rl = (round_double lo = Some x);
          rh = (round_double hi = Some x)
      in if rl \<and> rh then
           (if x - lo < hi - x then Some lo
            else if hi - x < x - lo then Some hi
            else if even (lo div p) then Some lo else Some hi)
         else if rl then Some lo
         else if rh then Some hi
         else None)"

text \<open>The search, from the largest power of ten down; with \<open>p = 1\<close> it is \<open>x\<close> itself.\<close>

fun shortest :: "int \<Rightarrow> nat \<Rightarrow> int" where
  "shortest x 0 = x"
| "shortest x (Suc j) =
     (case candidate x (10 ^ Suc j) of Some y \<Rightarrow> y | None \<Rightarrow> shortest x j)"

text \<open>A positive integer without its final zeros.\<close>

function strip_zeros :: "int \<Rightarrow> int" where
  "strip_zeros n = (if n \<le> 0 \<or> 0 < n mod 10 then n else strip_zeros (n div 10))"
  by pat_completeness auto

termination
  by (relation "measure nat") auto

declare strip_zeros.simps [simp del]

text \<open>From \<open>10 ^ 21\<close> on: the digits with a point after the first, \<open>e+\<close> and the exponent.\<close>

definition exponent_form :: "int \<Rightarrow> jsstring" where
  "exponent_form y =
     (let s = decimal (strip_zeros y)
      in (if length s = 1 then s else hd s # js ''.'' @ tl s)
         @ js ''e+'' @ decimal (int (length (decimal y)) - 1))"

text \<open>The digits of a non-negative integral double.\<close>

definition magnitude_toString :: "int \<Rightarrow> jsstring" where
  "magnitude_toString a =
     (if a < 2 ^ 53 then decimal a
      else let y = shortest a (length (decimal a) - 1)
           in if y < 10 ^ 21 then decimal y else exponent_form y)"

fun Number_toString :: "number \<Rightarrow> jsstring" where
  "Number_toString NaN = js ''NaN''"
| "Number_toString PosInf = js ''Infinity''"
| "Number_toString NegInf = js ''-Infinity''"
| "Number_toString (Num a) =
     (if a < 0 then js ''-'' @ magnitude_toString (- a) else magnitude_toString a)"

subsection \<open>\<open>parseInt(string)\<close> with no radix argument\<close>

text \<open>White space and line terminators that \<open>parseInt\<close> skips at the start.\<close>

definition isWhiteSpace :: "16 word \<Rightarrow> bool" where
  "isWhiteSpace c \<longleftrightarrow>
     c \<in> set [0x09, 0x0A, 0x0B, 0x0C, 0x0D, 0x20, 0xA0, 0x1680, 0x2028, 0x2029,
              0x202F, 0x205F, 0x3000, 0xFEFF]
     \<or> (0x2000 \<le> c \<and> c \<le> 0x200A)"

text \<open>The value of a code unit as a digit of the given radix, if it is one.\<close>

definition digitValue :: "int \<Rightarrow> 16 word \<Rightarrow> int option" where
  "digitValue radix c =
     (let v = (if 0x30 \<le> c \<and> c \<le> 0x39 then Some (uint c - 48)
               else if 0x61 \<le> c \<and> c \<le> 0x7A then Some (uint c - 87)
               else if 0x41 \<le> c \<and> c \<le> 0x5A then Some (uint c - 55)
               else None)
      in case v of None \<Rightarrow> None | Some d \<Rightarrow> if d < radix then Some d else None)"

text \<open>
  The longest prefix of digits, read left to right: \<open>acc\<close> is the value so far,
  \<open>None\<close> as long as no digit has been read.
\<close>

fun parseDigits :: "int \<Rightarrow> int option \<Rightarrow> jsstring \<Rightarrow> int option" where
  "parseDigits radix acc [] = acc"
| "parseDigits radix acc (c # cs) =
     (case digitValue radix c of
        None \<Rightarrow> acc
      | Some d \<Rightarrow>
          parseDigits radix
            (Some (radix * (case acc of None \<Rightarrow> 0 | Some a \<Rightarrow> a) + d)) cs)"

text \<open>
  The digits are read exactly and the value is rounded once to a double, as the engines
  do. (Beyond twenty significant decimal digits ECMAScript lets an implementation read
  the further digits as zeros.)
\<close>

definition parseInt :: "jsstring \<Rightarrow> number" where
  "parseInt inputString =
     (let S = dropWhile isWhiteSpace inputString;
          negative = (S \<noteq> [] \<and> hd S = 0x2D);
          S1 = (if S \<noteq> [] \<and> (hd S = 0x2B \<or> hd S = 0x2D) then tl S else S);
          hex = (length S1 \<ge> 2 \<and> hd S1 = 0x30 \<and> (hd (tl S1) = 0x78 \<or> hd (tl S1) = 0x58));
          R = (if hex then 16 else 10);
          S2 = (if hex then drop 2 S1 else S1)
      in case parseDigits R None S2 of
           None \<Rightarrow> NaN
         | Some mathInt \<Rightarrow> double_of_int (if negative then - mathInt else mathInt))"

section \<open>The component's data\<close>

record Movie =
  Title :: jsstring
  Year :: jsstring
  Runtime :: jsstring
  Poster :: "jsstring option"

record FilterOptions =
  searchTerm :: jsstring
  sortBy :: jsstring

subsection \<open>\<open>getRuntime\<close>\<close>

definition getRuntime :: "jsstring \<Rightarrow> jsstring" where
  "getRuntime runtime =
     (let minutes = parseInt runtime;
          hours = Math_floor_div minutes 60;
          remainingMinutes = num_rem minutes 60
      in if num_gt hours (Num 0)
         then Number_toString hours @ js ''h '' @ Number_toString remainingMinutes @ js ''m''
         else Number_toString remainingMinutes @ js ''m'')"

section \<open>Library functions of the host\<close>

text \<open>
  \<open>String.prototype.toLowerCase\<close> follows the Unicode case tables and
  \<open>String.prototype.localeCompare\<close> the collation of the host's locale. Neither is part
  of the program; both are parameters of the model.
\<close>

record host =
  toLowerCase :: "jsstring \<Rightarrow> jsstring"
  localeCompare :: "jsstring \<Rightarrow> jsstring \<Rightarrow> int"

text \<open>
  What ECMAScript promises of \<open>localeCompare\<close>: it is a consistent comparison function,
  so "not after" is a total preorder on strings.
\<close>

definition consistent :: "(jsstring \<Rightarrow> jsstring \<Rightarrow> int) \<Rightarrow> bool" where
  "consistent cmp \<longleftrightarrow>
     (\<forall>a b. 0 < cmp a b \<longrightarrow> cmp b a < 0) \<and>
     (\<forall>a b c. cmp a b \<le> 0 \<and> cmp b c \<le> 0 \<longrightarrow> cmp a c \<le> 0)"

text \<open>
  A host for concrete runs: lower case on the ASCII letters, comparison by code units.
  On ASCII strings its \<open>toLowerCase\<close> is the one of every JavaScript engine.
\<close>

definition ascii_lower :: "16 word \<Rightarrow> 16 word" where
  "ascii_lower c = (if 0x41 \<le> c \<and> c \<le> 0x5A then c + 0x20 else c)"

definition codeunit_compare :: "jsstring \<Rightarrow> jsstring \<Rightarrow> int" where
  "codeunit_compare a b = (if a < b then - 1 else if a = b then 0 else 1)"

definition ascii_host :: host where
  "ascii_host = \<lparr>toLowerCase = map ascii_lower, localeCompare = codeunit_compare\<rparr>"

subsection \<open>\<open>String.prototype.includes\<close>\<close>

text \<open>Does \<open>t\<close> match at the start of \<open>s\<close>?\<close>

fun matchesAt :: "'a list \<Rightarrow> 'a list \<Rightarrow> bool" where
  "matchesAt [] s = True"
| "matchesAt (c # t) [] = False"
| "matchesAt (c # t) (d # s) = (c = d \<and> matchesAt t s)"

text \<open>\<open>s.includes(t)\<close>: the search tries every start position from the left.\<close>

fun String_includes :: "'a list \<Rightarrow> 'a list \<Rightarrow> bool" where
  "String_includes [] t = matchesAt t []"
| "String_includes (c # s) t = (matchesAt t (c # s) \<or> String_includes s t)"

subsection \<open>\<open>Array.prototype.sort\<close> with a comparison function\<close>

text \<open>
  \<open>SortCompare\<close>: the comparison function's result, with \<open>NaN\<close> read as \<open>+0\<close>. The
  sort moves \<open>x\<close> behind \<open>y\<close> when the result is greater than zero.
\<close>

definition SortCompare :: "('a \<Rightarrow> 'a \<Rightarrow> number) \<Rightarrow> 'a \<Rightarrow> 'a \<Rightarrow> number" where
  "SortCompare comparefn x y = (case comparefn x y of NaN \<Rightarrow> Num 0 | v \<Rightarrow> v)"

definition sorts_after :: "('a \<Rightarrow> 'a \<Rightarrow> number) \<Rightarrow> 'a \<Rightarrow> 'a \<Rightarrow> bool" where
  "sorts_after comparefn x y = num_gt (SortCompare comparefn x y) (Num 0)"

text \<open>
  The sort is stable. For a consistent comparison function that fixes the result, which
  is computed here by insertion from the right: an element moves behind exactly the
  elements that must precede it. For an inconsistent comparison function ECMAScript
  leaves the order to the engine; the model then gives one possible order.
\<close>

fun sort_insert :: "('a \<Rightarrow> 'a \<Rightarrow> number) \<Rightarrow> 'a \<Rightarrow> 'a list \<Rightarrow> 'a list" where
  "sort_insert comparefn x [] = [x]"
| "sort_insert comparefn x (y # ys) =
     (if sorts_after comparefn x y then y # sort_insert comparefn x ys else x # y # ys)"

fun Array_sort :: "('a \<Rightarrow> 'a \<Rightarrow> number) \<Rightarrow> 'a list \<Rightarrow> 'a list" where
  "Array_sort comparefn [] = []"
| "Array_sort comparefn (x # xs) = sort_insert comparefn x (Array_sort comparefn xs)"

section \<open>The derivation pipeline: \<open>filteredMovies\<close>\<close>

definition matchesSearch :: "host \<Rightarrow> FilterOptions \<Rightarrow> Movie \<Rightarrow> bool" where
  "matchesSearch h filters movie =
     String_includes (toLowerCase h (Title movie)) (toLowerCase h (searchTerm filters))"

definition compareMovies :: "host \<Rightarrow> FilterOptions \<Rightarrow> Movie \<Rightarrow> Movie \<Rightarrow> number" where
  "compareMovies h filters a b =
     (if sortBy filters = js ''Year'' then num_sub (parseInt (Year b)) (parseInt (Year a))
      else if sortBy filters = js ''Runtime'' then
        (let runtimeA = parseInt (Runtime a);
             runtimeB = parseInt (Runtime b)
         in num_sub runtimeB runtimeA)
      else Num (localeCompare h (Title a) (Title b)))"

definition filteredMovies :: "host \<Rightarrow> Movie list \<Rightarrow> FilterOptions \<Rightarrow> Movie list" where
  "filteredMovies h movies filters =
     Array_sort (compareMovies h filters) (filter (matchesSearch h filters) movies)"

subsection \<open>The same pipeline on a store of arrays\<close>

text \<open>
  Arrays are objects: \<open>movies\<close> is a reference. \<open>filter\<close> allocates a new array and
  \<open>sort\<close> reorders the array it is called on, in place, and returns that same reference.
  The store is the list of all arrays allocated so far, a reference is an index into it,
  and a reference that was never allocated gives \<open>None\<close>.
\<close>

type_synonym ref = nat
type_synonym store = "Movie list list"

definition store_filter :: "(Movie \<Rightarrow> bool) \<Rightarrow> ref \<Rightarrow> store \<Rightarrow> (ref \<times> store) option" where
  "store_filter p r st =
     (if r < length st then Some (length st, st @ [filter p (st ! r)]) else None)"

definition store_sort :: "(Movie \<Rightarrow> Movie \<Rightarrow> number) \<Rightarrow> ref \<Rightarrow> store \<Rightarrow> (ref \<times> store) option" where
  "store_sort comparefn r st =
     (if r < length st then Some (r, st[r := Array_sort comparefn (st ! r)]) else None)"

definition filteredMovies_store :: "host \<Rightarrow> ref \<Rightarrow> FilterOptions \<Rightarrow> store \<Rightarrow> (ref \<times> store) option" where
  "filteredMovies_store h movies filters st =
     (case store_filter (matchesSearch h filters) movies st of
        None \<Rightarrow> None
      | Some (r, st1) \<Rightarrow> store_sort (compareMovies h filters) r st1)"

section \<open>The component's state and the fetch\<close>

record app_state =
  movies :: "Movie list"
  isLoading :: bool
  error :: "jsstring option"
  filters :: FilterOptions

definition initial_state :: app_state where
  "initial_state =
     \<lparr>movies = [], isLoading = True, error = None,
      filters = \<lparr>searchTerm = [], sortBy = js ''Title''\<rparr>\<rparr>"

text \<open>
  What a promise of the fetch settles to. A rejection carries the thrown value: an
  \<open>Error\<close> instance with its \<open>message\<close>, or any other value.
\<close>

datatype thrown = ErrorInstance jsstring | OtherValue

datatype 'a settled = Fulfilled 'a | Rejected thrown

record Response =
  ok :: bool
  json :: "Movie list settled"

text \<open>
  The \<open>try\<close> block: \<open>Inl\<close> is an exception, with the state at the throw; \<open>Inr\<close> is
  normal completion.
\<close>

definition try_block :: "Response settled \<Rightarrow> app_state \<Rightarrow> (thrown \<times> app_state) + app_state" where
  "try_block outcome s =
     (let s1 = s\<lparr>isLoading := True\<rparr>
      in case outcome of
           Rejected err \<Rightarrow> Inl (err, s1)
         | Fulfilled response \<Rightarrow>
             if \<not> ok response then Inl (ErrorInstance (js ''Failed to fetch movies''), s1)
             else (case json response of
                     Rejected err \<Rightarrow> Inl (err, s1)
                   | Fulfilled data \<Rightarrow> Inr (s1\<lparr>movies := data\<rparr>)))"

definition catch_block :: "thrown \<Rightarrow> app_state \<Rightarrow> app_state" where
  "catch_block err s =
     s\<lparr>error := Some (case err of ErrorInstance message \<Rightarrow> message
                                | OtherValue \<Rightarrow> js ''An error occurred'')\<rparr>"

text \<open>
  One run of \<open>fetchMovies\<close> to completion, given what the network did. The state
  updates made after the last \<open>await\<close> are committed together.
\<close>

definition fetchMovies :: "Response settled \<Rightarrow> app_state \<Rightarrow> app_state" where
  "fetchMovies outcome s =
     (let s2 = (case try_block outcome s of
                  Inl (err, s1) \<Rightarrow> catch_block err s1
                | Inr s1 \<Rightarrow> s1)
      in s2\<lparr>isLoading := False\<rparr>)"

subsection \<open>\<open>handleFilterChange\<close>\<close>

datatype filter_key = Key_searchTerm | Key_sortBy

definition handleFilterChange :: "filter_key \<Rightarrow> jsstring \<Rightarrow> app_state \<Rightarrow> app_state" where
  "handleFilterChange key v s =
     s\<lparr>filters := (case key of
                     Key_searchTerm \<Rightarrow> (filters s)\<lparr>searchTerm := v\<rparr>
                   | Key_sortBy \<Rightarrow> (filters s)\<lparr>sortBy := v\<rparr>)\<rparr>"

subsection \<open>Which of the three views is rendered\<close>

datatype lifecycle = Loading | Error jsstring | Ready "Movie list"

text \<open>\<open>if (error)\<close>: \<open>null\<close> and the empty string are falsy.\<close>

definition truthy :: "jsstring option \<Rightarrow> bool" where
  "truthy e = (case e of None \<Rightarrow> False | Some message \<Rightarrow> message \<noteq> [])"

definition lifecycle_of :: "app_state \<Rightarrow> lifecycle" where
  "lifecycle_of s =
     (if isLoading s then Loading
      else if truthy (error s) then Error (case error s of None \<Rightarrow> [] | Some message \<Rightarrow> message)
      else Ready (movies s))"

text \<open>The three conditions on the state variables themselves.\<close>

definition loading_active :: "app_state \<Rightarrow> bool" where
  "loading_active s = isLoading s"

definition error_active :: "app_state \<Rightarrow> bool" where
  "error_active s = truthy (error s)"

definition ready_active :: "app_state \<Rightarrow> bool" where
  "ready_active s = (\<not> isLoading s \<and> \<not> truthy (error s))"

text \<open>
  The states of a session: the initial one, and from any of them the state after the
  fetch has completed or after a change of a filter control. The effect starts the fetch
  once, on mount, where \<open>setIsLoading(true)\<close> changes nothing; letting the fetch
  complete from any state only adds states.
\<close>

inductive reachable :: "app_state \<Rightarrow> bool" where
  start: "reachable initial_state"
| fetched: "reachable s \<Longrightarrow> reachable (fetchMovies outcome s)"
| filter_changed: "reachable s \<Longrightarrow> reachable (handleFilterChange key v s)"

section \<open>Sample data for concrete runs\<close>

definition movie_of :: "string \<Rightarrow> string \<Rightarrow> string \<Rightarrow> Movie" where
  "movie_of t y r = \<lparr>Title = js t, Year = js y, Runtime = js r, Poster = None\<rparr>"

definition zeta :: Movie where
  "zeta = movie_of ''Zeta'' ''1999'' ''90''"

definition alpha :: Movie where
  "alpha = movie_of ''Alpha'' ''2005'' ''120''"

definition beta :: Movie where
  "beta = movie_of ''Beta'' ''2001'' ''45''"

section \<open>Facts about the library functions\<close>

lemma mset_sort_insert: "mset (sort_insert cmp x ys) = add_mset x (mset ys)"
  by (induction ys) simp_all

lemma mset_Array_sort: "mset (Array_sort cmp xs) = mset xs"
  by (induction xs) (simp_all add: mset_sort_insert)

lemma set_Array_sort: "set (Array_sort cmp xs) = set xs"
  using mset_Array_sort [of cmp xs] by (metis set_mset_mset)

lemma matchesAt_iff: "matchesAt t s \<longleftrightarrow> (\<exists>v. s = t @ v)"
  by (induction t s rule: matchesAt.induct) auto

lemma String_includes_iff: "String_includes s t \<longleftrightarrow> (\<exists>u v. s = u @ t @ v)"
proof (induction s)
  case Nil
  show ?case by (auto simp: matchesAt_iff)
next
  case (Cons c s)
  show ?case
  proof
    assume "String_includes (c # s) t"
    then consider "matchesAt t (c # s)" | "String_includes s t" by auto
    then show "\<exists>u v. c # s = u @ t @ v"
    proof cases
      case 1
      then obtain v where "c # s = [] @ t @ v" by (auto simp: matchesAt_iff)
      then show ?thesis by blast
    next
      case 2
      then obtain u v where "s = u @ t @ v" using Cons.IH by blast
      then have "c # s = (c # u) @ t @ v" by simp
      then show ?thesis by blast
    qed
  next
    assume "\<exists>u v. c # s = u @ t @ v"
    then obtain u v where uv: "c # s = u @ t @ v" by blast
    show "String_includes (c # s) t"
    proof (cases u)
      case Nil
      with uv have "matchesAt t (c # s)" by (auto simp: matchesAt_iff)
      then show ?thesis by simp
    next
      case (Cons d u')
      with uv have "s = u' @ t @ v" by simp
      then have "String_includes s t" using Cons.IH by blast
      then show ?thesis by simp
    qed
  qed
qed

lemma sorted_sort_insert:
  assumes tot: "\<forall>a\<in>A. \<forall>b\<in>A. sorts_after cmp a b \<longrightarrow> \<not> sorts_after cmp b a"
    and tr: "\<forall>a\<in>A. \<forall>b\<in>A. \<forall>c\<in>A. \<not> sorts_after cmp a b \<and> \<not> sorts_after cmp b c \<longrightarrow> \<not> sorts_after cmp a c"
    and "x \<in> A" and "set ys \<subseteq> A"
    and "sorted_wrt (\<lambda>a b. \<not> sorts_after cmp a b) ys"
  shows "sorted_wrt (\<lambda>a b. \<not> sorts_after cmp a b) (sort_insert cmp x ys)"
  using assms(3-)
proof (induction ys)
  case Nil
  show ?case by simp
next
  case (Cons y ys)
  have xA: "x \<in> A" and yA: "y \<in> A" and ysA: "set ys \<subseteq> A" using Cons.prems by auto
  have sy: "\<forall>z\<in>set ys. \<not> sorts_after cmp y z"
    and sys: "sorted_wrt (\<lambda>a b. \<not> sorts_after cmp a b) ys"
    using Cons.prems by auto
  show ?case
  proof (cases "sorts_after cmp x y")
    case True
    have "\<not> sorts_after cmp y x" using tot xA yA True by blast
    moreover have "sorted_wrt (\<lambda>a b. \<not> sorts_after cmp a b) (sort_insert cmp x ys)"
      using Cons.IH xA ysA sys by blast
    moreover have "set (sort_insert cmp x ys) = insert x (set ys)"
      using mset_sort_insert [of cmp x ys] by (metis set_mset_mset set_mset_add_mset_insert)
    ultimately show ?thesis using True sy by simp
  next
    case False
    have "\<forall>z\<in>set ys. \<not> sorts_after cmp x z"
    proof
      fix z assume z: "z \<in> set ys"
      then have "z \<in> A" using ysA by blast
      moreover have "\<not> sorts_after cmp y z" using sy z by blast
      ultimately show "\<not> sorts_after cmp x z" using tr xA yA False by blast
    qed
    then show ?thesis using False sy sys by simp
  qed
qed

lemma sorted_Array_sort:
  assumes tot: "\<forall>a\<in>A. \<forall>b\<in>A. sorts_after cmp a b \<longrightarrow> \<not> sorts_after cmp b a"
    and tr: "\<forall>a\<in>A. \<forall>b\<in>A. \<forall>c\<in>A. \<not> sorts_after cmp a b \<and> \<not> sorts_after cmp b c \<longrightarrow> \<not> sorts_after cmp a c"
    and "set xs \<subseteq> A"
  shows "sorted_wrt (\<lambda>a b. \<not> sorts_after cmp a b) (Array_sort cmp xs)"
  using assms(3)
proof (induction xs)
  case Nil
  show ?case by simp
next
  case (Cons x xs)
  have "sorted_wrt (\<lambda>a b. \<not> sorts_after cmp a b) (Array_sort cmp xs)" using Cons by simp
  moreover have "set (Array_sort cmp xs) \<subseteq> A" using Cons.prems by (simp add: set_Array_sort)
  moreover have "x \<in> A" using Cons.prems by simp
  ultimately show ?case using sorted_sort_insert [OF tot tr] by simp
qed

lemma Array_sort_sorted_id:
  "sorted_wrt (\<lambda>a b. \<not> sorts_after cmp a b) xs \<Longrightarrow> Array_sort cmp xs = xs"
proof (induction xs)
  case Nil
  show ?case by simp
next
  case (Cons x xs)
  then have "Array_sort cmp xs = xs" by simp
  moreover have "sort_insert cmp x xs = x # xs"
    using Cons.prems by (cases xs) simp_all
  ultimately show ?case by simp
qed

subsection \<open>Rounding to a double and flooring a quotient\<close>

lemma bit_length_bound: "0 \<le> n \<Longrightarrow> n < 2 ^ k \<Longrightarrow> bit_length n \<le> k"
proof (induction k arbitrary: n)
  case 0
  then have "n = 0" by simp
  then show ?case by (simp add: bit_length.simps)
next
  case (Suc k)
  show ?case
  proof (cases "n \<le> 0")
    case True
    then show ?thesis by (simp add: bit_length.simps)
  next
    case False
    have "n div 2 < 2 ^ k" using Suc.prems by simp
    moreover have "0 \<le> n div 2" using Suc.prems by simp
    ultimately have "bit_length (n div 2) \<le> k" by (rule Suc.IH [rotated])
    then show ?thesis using False by (simp add: bit_length.simps [of n])
  qed
qed

lemma bit_length_power: "0 < n \<Longrightarrow> 2 ^ bit_length n \<le> 2 * n"
proof (induction n rule: bit_length.induct)
  case (1 n)
  show ?case
  proof (cases "n div 2 \<le> 0")
    case True
    then have "n = 1" using "1.prems" by simp
    then show ?thesis by (simp add: bit_length.simps)
  next
    case False
    then have "2 ^ bit_length (n div 2) \<le> 2 * (n div 2)"
      using "1.IH" "1.prems" by simp
    also have "\<dots> \<le> n" by simp
    finally show ?thesis using "1.prems" by (simp add: bit_length.simps [of n])
  qed
qed

lemma rne_lower: "a div b \<le> rne a b"
  by (simp add: rne_def Let_def)

lemma rne_cases: "rne a b = a div b \<or> (rne a b = a div b + 1 \<and> b \<le> 2 * (a mod b))"
  by (auto simp: rne_def Let_def)

lemma round_double_sign:
  assumes "0 \<le> n" and "round_double n = Some v"
  shows "0 \<le> v \<and> (0 < v \<longleftrightarrow> 0 < n)"
proof (cases "n < 2 ^ 53")
  case True
  then show ?thesis using assms by (simp add: round_double_def)
next
  case False
  define e where "e = bit_length n - 53"
  have n: "0 < n" using False by (smt (verit) zero_less_power)
  have v: "v = rne n (2 ^ e) * 2 ^ e"
    using assms False by (simp add: round_double_def Let_def e_def split: if_splits)
  have "(2::int) ^ e \<le> n"
  proof (cases "bit_length n \<le> 53")
    case True
    then show ?thesis using n by (simp add: e_def)
  next
    case False
    then have "bit_length n = e + 53" by (simp add: e_def)
    then have "(2::int) ^ e * 2 ^ 53 = 2 ^ bit_length n"
      by (simp only: power_add)
    also have "\<dots> \<le> 2 * n" using n by (rule bit_length_power)
    finally have "(2::int) ^ e * 2 ^ 53 \<le> 2 * n" .
    moreover have "(2::int) ^ e * 2 \<le> 2 ^ e * 2 ^ 53" by simp
    ultimately show ?thesis by linarith
  qed
  then have "0 < n div 2 ^ e"
    using pos_imp_zdiv_pos_iff [of "2 ^ e" n] by simp
  then have "1 \<le> n div 2 ^ e" by simp
  then have "1 \<le> rne n (2 ^ e)" using rne_lower [of n "2 ^ e"] by linarith
  then have "0 < rne n (2 ^ e) * 2 ^ e" by simp
  then show ?thesis using v n by simp
qed

lemma round_double_None: "round_double n = None \<Longrightarrow> 0 < n"
  by (auto simp: round_double_def Let_def split: if_splits)

lemma double_of_int_positive:
  "num_gt (case double_of_int z of NaN \<Rightarrow> Num 0 | v \<Rightarrow> v) (Num 0) \<longleftrightarrow> 0 < z"
proof (cases "round_double \<bar>z\<bar>")
  case None
  then have "z \<noteq> 0" using round_double_None [of "\<bar>z\<bar>"] by auto
  then show ?thesis using None by (simp add: double_of_int_def)
next
  case (Some v)
  then have "0 \<le> v \<and> (0 < v \<longleftrightarrow> 0 < \<bar>z\<bar>)"
    using round_double_sign [of "\<bar>z\<bar>" v] by simp
  then show ?thesis using Some by (auto simp: double_of_int_def)
qed

lemma scaled_round_floor:
  assumes m: "0 \<le> m" and k: "5 \<le> k"
  shows "rne (m * 2 ^ k) 60 div 2 ^ k = m div 60"
proof -
  define P :: int where "P = 2 ^ k"
  define A where "A = (m div 60) * P"
  define R where "R = (m mod 60) * P"
  define Q where "Q = (m * P) div 60"
  define \<rho> where "\<rho> = (m * P) mod 60"
  have "(2::int) ^ 5 \<le> 2 ^ k" using k by (intro power_increasing) simp_all
  then have P: "32 \<le> P" by (simp add: P_def)
  have X: "m * P = 60 * A + R"
    unfolding A_def R_def by (metis mult_div_mod_eq distrib_right mult.assoc mult.commute)
  have X': "m * P = 60 * Q + \<rho>" unfolding Q_def \<rho>_def by simp
  have \<rho>: "0 \<le> \<rho>" "\<rho> < 60" by (simp_all add: \<rho>_def)
  have R0: "0 \<le> R" using P by (simp add: R_def)
  have "(m mod 60) * P \<le> 59 * P"
    using P by (intro mult_right_mono) simp_all
  then have R59: "R \<le> 59 * P" by (simp add: R_def)
  have M: "rne (m * P) 60 = Q \<or> (rne (m * P) 60 = Q + 1 \<and> 30 \<le> \<rho>)"
    using rne_cases [of "m * P" 60] by (auto simp: Q_def \<rho>_def)
  have lower: "A \<le> rne (m * P) 60" using M X X' \<rho> R0 by linarith
  have upper: "rne (m * P) 60 < A + P" using M X X' \<rho> R59 P by linarith
  have "rne (m * P) 60 div P = m div 60"
  proof (rule int_div_pos_eq)
    show "rne (m * P) 60 = P * (m div 60) + (rne (m * P) 60 - A)" by (simp add: A_def)
    show "0 \<le> rne (m * P) 60 - A" using lower by simp
    show "rne (m * P) 60 - A < P" using upper by simp
  qed
  then show ?thesis by (simp add: P_def)
qed

lemma bit_length_60: "bit_length 60 = 6"
  by code_simp

lemma floor_quotient_safe:
  assumes "0 \<le> m" and "m < 2 ^ 53"
  shows "floor_quotient m 60 = m div 60"
proof (cases "m = 0")
  case True
  then show ?thesis by (simp add: floor_quotient_def)
next
  case False
  then have pos: "0 < m" using assms by simp
  define e where "e = quotient_exponent m 60"
  have "bit_length m \<le> 53" using assms by (rule bit_length_bound)
  then have "e \<le> - 5"
    by (auto simp: e_def quotient_exponent_def Let_def bit_length_60 split: prod.splits)
  then have neg: "\<not> 0 \<le> e" and k: "5 \<le> nat (- e)" by simp_all
  have sc: "scaled \<bar>m\<bar> 60 e = (m * 2 ^ nat (- e), 60)"
    using neg pos by (simp add: scaled_def)
  have "floor_quotient m 60 = rne (m * 2 ^ nat (- e)) 60 div 2 ^ nat (- e)"
    using False pos neg sc by (simp add: floor_quotient_def Let_def flip: e_def)
  also have "\<dots> = m div 60" using assms(1) k by (rule scaled_round_floor)
  finally show ?thesis .
qed

lemma consistent_codeunit_compare: "consistent codeunit_compare"
  by (auto simp: consistent_def codeunit_compare_def split: if_splits)

lemma sortBy_literals:
  "js ''Title'' \<noteq> js ''Year''" "js ''Title'' \<noteq> js ''Runtime''" "js ''Year'' \<noteq> js ''Runtime''"
  by (simp_all add: js_def)

subsection \<open>The fetch and the states of a session\<close>

lemma message_literals:
  "js ''Failed to fetch movies'' \<noteq> []" "js ''An error occurred'' \<noteq> []"
  by (simp_all add: js_def)

lemma fetchMovies_throw:
  assumes "try_block outcome s = Inl (err, s1)"
  shows "fetchMovies outcome s = (catch_block err s1)\<lparr>isLoading := False\<rparr>"
  using assms by (simp add: fetchMovies_def)

lemma lifecycle_of_error:
  "\<not> isLoading s \<Longrightarrow> error s = Some message \<Longrightarrow> message \<noteq> [] \<Longrightarrow> lifecycle_of s = Error message"
  by (simp add: lifecycle_of_def truthy_def)

lemma isLoading_fetchMovies: "isLoading (fetchMovies outcome s) = False"
  by (simp add: fetchMovies_def Let_def split: sum.split prod.split)

lemma reachable_loading_no_error: "reachable s \<Longrightarrow> isLoading s \<Longrightarrow> error s = None"
proof (induction rule: reachable.induct)
  case start
  show ?case by (simp add: initial_state_def)
next
  case (fetched s outcome)
  then show ?case by (simp add: isLoading_fetchMovies)
next
  case (filter_changed s key v)
  then show ?case by (simp add: handleFilterChange_def)
qed

subsection \<open>The model on sample values\<close>

lemma parseInt_samples:
  "parseInt (js ''9007199254740993'') = Num 9007199254740992"
  "parseInt (js '' -0x1F min'') = Num (- 31)"
  "parseInt (js ''min'') = NaN"
  "double_of_int (10 ^ 309) = PosInf"
  by code_simp+

lemma Number_toString_samples:
  "Number_toString (Num (2 ^ 60)) = js ''1152921504606847000''"
  "Number_toString (Num (10 ^ 21)) = js ''1e+21''"
  "Number_toString (Num (2 ^ 70)) = js ''1.1805916207174113e+21''"
  "Number_toString (Num (- (2 ^ 64))) = js ''-18446744073709552000''"
  by code_simp+

lemma getRuntime_samples:
  "getRuntime (js ''abc'') = js ''NaNm''"
  "getRuntime (js ''-90'') = js ''-30m''"
  "getRuntime (js ''9007199254740993'') = js ''150119987579016h 32m''"
  by code_simp+

text \<open>Two years that round to the same double compare as equal and keep their order.\<close>

lemma equal_doubles_keep_order:
  "filteredMovies ascii_host
     [movie_of ''A'' ''9007199254740992'' ''1'', movie_of ''B'' ''9007199254740993'' ''1'']
     \<lparr>searchTerm = [], sortBy = js ''Year''\<rparr>
   = [movie_of ''A'' ''9007199254740992'' ''1'', movie_of ''B'' ''9007199254740993'' ''1'']"
  by code_simp

section \<open>Properties of the derivation pipeline\<close>

text \<open>
  C1. For every raw list and every filter configuration, the view list holds exactly
  the movies of the raw list (each as often as it occurs there) whose lower-cased title
  has the lower-cased search term as a substring. With an empty search term, which the
  host's \<open>toLowerCase\<close> leaves empty, every movie is kept.
\<close>

theorem filteredMovies_exactly_matching:
  "mset (filteredMovies h L F) =
     mset (filter (\<lambda>m. \<exists>u v. toLowerCase h (Title m) = u @ toLowerCase h (searchTerm F) @ v) L)
   \<and> set (filteredMovies h L F) =
     {m \<in> set L. \<exists>u v. toLowerCase h (Title m) = u @ toLowerCase h (searchTerm F) @ v}
   \<and> (toLowerCase h [] = [] \<and> searchTerm F = [] \<longrightarrow> mset (filteredMovies h L F) = mset L)"
proof -
  have p: "matchesSearch h F = (\<lambda>m. \<exists>u v. toLowerCase h (Title m) = u @ toLowerCase h (searchTerm F) @ v)"
    by (rule ext) (simp add: matchesSearch_def String_includes_iff)
  have a: "mset (filteredMovies h L F) = mset (filter (matchesSearch h F) L)"
    by (simp add: filteredMovies_def mset_Array_sort)
  have b: "set (filteredMovies h L F) = {m \<in> set L. matchesSearch h F m}"
    by (simp add: filteredMovies_def set_Array_sort)
  have c: "mset (filteredMovies h L F) = mset L" if "toLowerCase h [] = []" "searchTerm F = []"
  proof -
    have "String_includes s ([] :: jsstring)" for s
      by (cases s) simp_all
    then have "matchesSearch h F m" for m
      using that by (simp add: matchesSearch_def)
    then have "filter (matchesSearch h F) L = L" by simp
    then show ?thesis using a by simp
  qed
  show ?thesis using a b c unfolding p by blast
qed

theorem filteredMovies_exactly_matching_witness:
  "toLowerCase ascii_host [] = [] \<and>
   searchTerm \<lparr>searchTerm = [], sortBy = js ''Title''\<rparr> = [] \<and>
   mset (filteredMovies ascii_host [zeta, alpha] \<lparr>searchTerm = [], sortBy = js ''Title''\<rparr>) =
   mset [zeta, alpha]"
  using filteredMovies_exactly_matching [of ascii_host "[zeta, alpha]"
           "\<lparr>searchTerm = [], sortBy = js ''Title''\<rparr>", THEN conjunct2, THEN conjunct2]
  by (simp add: ascii_host_def)

text \<open>
  C2, as stated, fails for a Runtime string that parses to a large integer. The string
  below parses exactly, to \<open>m = 72057594037928096\<close>, but the quotient \<open>m / 60\<close> is
  rounded to a double before it is floored, and the hours come out one too large:
  \<open>m div 60\<close> is \<open>1200959900632134\<close>.
\<close>

theorem getRuntime_rounding_counterexample:
  "parseInt (js ''72057594037928096'') = Num 72057594037928096
   \<and> (72057594037928096 :: int) div 60 = 1200959900632134
   \<and> (72057594037928096 :: int) mod 60 = 56
   \<and> getRuntime (js ''72057594037928096'') = js ''1200959900632135h 56m''
   \<and> getRuntime (js ''72057594037928096'') \<noteq> js ''1200959900632134h 56m''"
proof -
  have p: "parseInt (js ''72057594037928096'') = Num 72057594037928096" by code_simp
  have g: "getRuntime (js ''72057594037928096'') = js ''1200959900632135h 56m''" by code_simp
  have d: "js ''1200959900632135h 56m'' \<noteq> js ''1200959900632134h 56m''" by (simp add: js_def)
  show ?thesis using p g d by simp
qed

text \<open>
  C2, amended. For a Runtime string that \<open>parseInt\<close> reads as a non-negative integer
  \<open>m\<close> below \<open>2 ^ 53\<close>, \<open>getRuntime\<close> returns the decimal digits of \<open>m div 60\<close>, \<open>h\<close>, a
  space, the decimal digits of \<open>m mod 60\<close> and \<open>m\<close> when \<open>m div 60\<close> is positive, and the
  decimal digits of \<open>m mod 60\<close> followed by \<open>m\<close> otherwise. The three sample runtimes
  90, 45 and 120 give \<open>1h 30m\<close>, \<open>45m\<close> and \<open>2h 0m\<close>.
\<close>

theorem getRuntime_hours_minutes:
  "(parseInt r = Num m \<and> 0 \<le> m \<and> m < 2 ^ 53 \<longrightarrow>
      getRuntime r =
        (if 0 < m div 60
         then decimal (m div 60) @ js ''h '' @ decimal (m mod 60) @ js ''m''
         else decimal (m mod 60) @ js ''m''))
   \<and> getRuntime (js ''90'') = js ''1h 30m''
   \<and> getRuntime (js ''45'') = js ''45m''
   \<and> getRuntime (js ''120'') = js ''2h 0m''"
proof -
  have general: "getRuntime r =
        (if 0 < m div 60
         then decimal (m div 60) @ js ''h '' @ decimal (m mod 60) @ js ''m''
         else decimal (m mod 60) @ js ''m'')"
    if p: "parseInt r = Num m" and m: "0 \<le> m" and safe: "m < 2 ^ 53"
  proof -
    have "sgn m * (\<bar>m\<bar> mod \<bar>60\<bar>) = m mod 60"
      using m by (cases "m = 0") simp_all
    then have rem: "num_rem (Num m) 60 = Num (m mod 60)"
      by (simp only: num_rem.simps)
    have quot: "Math_floor_div (Num m) 60 = Num (m div 60)"
      using floor_quotient_safe [OF m safe] by simp
    have str: "Number_toString (Num k) = decimal k" if "0 \<le> k" "k < 2 ^ 53" for k
      using that by (simp add: magnitude_toString_def)
    have "0 \<le> m div 60" "m div 60 \<le> m" using m by presburger+
    then have hours: "Number_toString (Num (m div 60)) = decimal (m div 60)"
      using safe by (intro str) simp_all
    have mins: "Number_toString (Num (m mod 60)) = decimal (m mod 60)"
      by (intro str) simp_all
    show ?thesis
      by (simp only: getRuntime_def Let_def p quot rem num_gt.simps hours mins)
  qed
  have e1: "getRuntime (js ''90'') = js ''1h 30m''" by code_simp
  have e2: "getRuntime (js ''45'') = js ''45m''" by code_simp
  have e3: "getRuntime (js ''120'') = js ''2h 0m''" by code_simp
  show ?thesis using general e1 e2 e3 by blast
qed

theorem getRuntime_hours_minutes_witness:
  "parseInt (js ''135'') = Num 135 \<and> (0::int) \<le> 135 \<and> (135::int) < 2 ^ 53
   \<and> getRuntime (js ''135'') = js ''2h 15m''"
proof -
  have p: "parseInt (js ''135'') = Num 135" by code_simp
  have d: "decimal 2 @ js ''h '' @ decimal 15 @ js ''m'' = js ''2h 15m''" by code_simp
  have "getRuntime (js ''135'') = decimal 2 @ js ''h '' @ decimal 15 @ js ''m''"
    using getRuntime_hours_minutes [of "js ''135''" 135, THEN conjunct1] p by simp
  then show ?thesis using p d by simp
qed

text \<open>
  C3. With \<open>sortBy = Year\<close> and a raw list whose Year strings all parse to integers,
  the first movie of the view list has a year at least as large as the year of every
  other movie of the view list. The years compared are the numbers \<open>parseInt\<close> returns.
\<close>

theorem year_sort_latest_first:
  assumes y: "sortBy F = js ''Year''"
    and parse: "\<forall>m\<in>set L. \<exists>n. parseInt (Year m) = Num n"
    and view: "filteredMovies h L F = first # rest"
  shows "\<forall>m\<in>set rest. \<exists>a b. parseInt (Year first) = Num a \<and> parseInt (Year m) = Num b \<and> b \<le> a"
proof -
  define A :: "Movie set" where "A = {m. \<exists>n. parseInt (Year m) = Num n}"
  define cmp where "cmp = compareMovies h F"
  have sc: "sorts_after cmp a b \<longleftrightarrow> n < n'"
    if "parseInt (Year a) = Num n" "parseInt (Year b) = Num n'" for a b n n'
    using that y double_of_int_positive [of "n' - n"]
    by (simp add: cmp_def compareMovies_def sorts_after_def SortCompare_def)
  have tot: "\<forall>a\<in>A. \<forall>b\<in>A. sorts_after cmp a b \<longrightarrow> \<not> sorts_after cmp b a"
    unfolding A_def using sc by fastforce
  have tr: "\<forall>a\<in>A. \<forall>b\<in>A. \<forall>c\<in>A. \<not> sorts_after cmp a b \<and> \<not> sorts_after cmp b c
              \<longrightarrow> \<not> sorts_after cmp a c"
    unfolding A_def using sc by fastforce
  have sub: "set (filter (matchesSearch h F) L) \<subseteq> A"
    unfolding A_def using parse by auto
  have "sorted_wrt (\<lambda>a b. \<not> sorts_after cmp a b) (Array_sort cmp (filter (matchesSearch h F) L))"
    by (rule sorted_Array_sort [OF tot tr sub])
  then have sorted: "sorted_wrt (\<lambda>a b. \<not> sorts_after cmp a b) (first # rest)"
    using view by (simp add: filteredMovies_def cmp_def)
  have mem: "set (first # rest) \<subseteq> A"
    using sub view set_Array_sort [of cmp "filter (matchesSearch h F) L"]
    by (simp add: filteredMovies_def cmp_def)
  show ?thesis
  proof
    fix m assume m: "m \<in> set rest"
    obtain a where a: "parseInt (Year first) = Num a" using mem by (auto simp: A_def)
    obtain b where b: "parseInt (Year m) = Num b" using mem m by (auto simp: A_def)
    have "\<not> sorts_after cmp first m" using sorted m by simp
    then have "b \<le> a" using sc [OF a b] by simp
    then show "\<exists>a b. parseInt (Year first) = Num a \<and> parseInt (Year m) = Num b \<and> b \<le> a"
      using a b by blast
  qed
qed

theorem year_sort_latest_first_witness:
  "sortBy \<lparr>searchTerm = js ''ETA'', sortBy = js ''Year''\<rparr> = js ''Year''
   \<and> parseInt (Year zeta) = Num 1999 \<and> parseInt (Year alpha) = Num 2005
   \<and> parseInt (Year beta) = Num 2001
   \<and> filteredMovies ascii_host [zeta, alpha, beta] \<lparr>searchTerm = js ''ETA'', sortBy = js ''Year''\<rparr>
       = [beta, zeta]
   \<and> (\<exists>a b. parseInt (Year beta) = Num a \<and> parseInt (Year zeta) = Num b \<and> b \<le> a)"
proof -
  have pz: "parseInt (Year zeta) = Num 1999" by code_simp
  have pa: "parseInt (Year alpha) = Num 2005" by code_simp
  have pb: "parseInt (Year beta) = Num 2001" by code_simp
  have view: "filteredMovies ascii_host [zeta, alpha, beta]
                \<lparr>searchTerm = js ''ETA'', sortBy = js ''Year''\<rparr> = [beta, zeta]"
    by code_simp
  have parse: "\<forall>m\<in>set [zeta, alpha, beta]. \<exists>n. parseInt (Year m) = Num n"
    using pz pa pb by simp
  have "\<forall>m\<in>set [zeta]. \<exists>a b. parseInt (Year beta) = Num a \<and> parseInt (Year m) = Num b \<and> b \<le> a"
    by (rule year_sort_latest_first [OF _ parse view]) simp
  then show ?thesis using pz pa pb view by simp
qed

text \<open>
  C4. With \<open>sortBy = Title\<close>, sorting a list that is already in title order (no movie
  compares after a later one) returns it unchanged; and, \<open>localeCompare\<close> being a
  consistent comparison function, sorting the sorted list again, or running the whole
  pipeline on its own output, changes nothing.
\<close>

theorem title_sort_idempotent:
  assumes t: "sortBy F = js ''Title''"
  shows "(sorted_wrt (\<lambda>a b. localeCompare h (Title a) (Title b) \<le> 0) xs \<longrightarrow>
            Array_sort (compareMovies h F) xs = xs)
       \<and> (consistent (localeCompare h) \<longrightarrow>
            Array_sort (compareMovies h F) (Array_sort (compareMovies h F) xs)
              = Array_sort (compareMovies h F) xs
          \<and> filteredMovies h (filteredMovies h xs F) F = filteredMovies h xs F)"
proof -
  define cmp where "cmp = compareMovies h F"
  have sc: "sorts_after cmp a b \<longleftrightarrow> 0 < localeCompare h (Title a) (Title b)" for a b
    using t sortBy_literals
    by (simp add: cmp_def compareMovies_def sorts_after_def SortCompare_def)
  have le: "(\<lambda>a b. \<not> sorts_after cmp a b) = (\<lambda>a b. localeCompare h (Title a) (Title b) \<le> 0)"
    by (intro ext) (simp add: sc not_less)
  have fixed: "Array_sort cmp ys = ys"
    if "sorted_wrt (\<lambda>a b. localeCompare h (Title a) (Title b) \<le> 0) ys" for ys
    using that Array_sort_sorted_id [of cmp ys] by (simp only: le)
  have twice: "Array_sort cmp (Array_sort cmp ys) = Array_sort cmp ys"
    and pipeline: "filteredMovies h (filteredMovies h ys F) F = filteredMovies h ys F"
    if c: "consistent (localeCompare h)" for ys
  proof -
    have tot: "\<forall>a\<in>UNIV. \<forall>b\<in>UNIV. sorts_after cmp a b \<longrightarrow> \<not> sorts_after cmp b a"
      using c unfolding consistent_def sc by (meson less_asym)
    have tr: "\<forall>a\<in>UNIV. \<forall>b\<in>UNIV. \<forall>c\<in>UNIV. \<not> sorts_after cmp a b \<and> \<not> sorts_after cmp b c
                \<longrightarrow> \<not> sorts_after cmp a c"
      using c unfolding consistent_def sc not_less by blast
    have sorted: "sorted_wrt (\<lambda>a b. \<not> sorts_after cmp a b) (Array_sort cmp zs)" for zs
      by (rule sorted_Array_sort [OF tot tr]) simp
    show "Array_sort cmp (Array_sort cmp ys) = Array_sort cmp ys"
      by (rule Array_sort_sorted_id [OF sorted])
    have "filter (matchesSearch h F) (filteredMovies h ys F) = filteredMovies h ys F"
      by (rule filter_True) (simp add: filteredMovies_def set_Array_sort)
    then show "filteredMovies h (filteredMovies h ys F) F = filteredMovies h ys F"
      using Array_sort_sorted_id [OF sorted]
      by (simp add: filteredMovies_def cmp_def)
  qed
  show ?thesis using fixed twice pipeline unfolding cmp_def by blast
qed

theorem title_sort_idempotent_witness:
  "sortBy \<lparr>searchTerm = [], sortBy = js ''Title''\<rparr> = js ''Title''
   \<and> consistent (localeCompare ascii_host)
   \<and> localeCompare ascii_host (Title alpha) (Title zeta) \<le> 0
   \<and> Array_sort (compareMovies ascii_host \<lparr>searchTerm = [], sortBy = js ''Title''\<rparr>) [alpha, zeta]
       = [alpha, zeta]
   \<and> Array_sort (compareMovies ascii_host \<lparr>searchTerm = [], sortBy = js ''Title''\<rparr>)
        (Array_sort (compareMovies ascii_host \<lparr>searchTerm = [], sortBy = js ''Title''\<rparr>) [zeta, alpha])
       = Array_sort (compareMovies ascii_host \<lparr>searchTerm = [], sortBy = js ''Title''\<rparr>) [zeta, alpha]
   \<and> Array_sort (compareMovies ascii_host \<lparr>searchTerm = [], sortBy = js ''Title''\<rparr>) [zeta, alpha]
       = [alpha, zeta]"
proof -
  let ?F = "\<lparr>searchTerm = [], sortBy = js ''Title''\<rparr>"
  have t: "sortBy ?F = js ''Title''" by simp
  have c: "consistent (localeCompare ascii_host)"
    by (simp add: ascii_host_def consistent_codeunit_compare)
  have az: "localeCompare ascii_host (Title alpha) (Title zeta) \<le> 0" by code_simp
  have s: "sorted_wrt (\<lambda>a b. localeCompare ascii_host (Title a) (Title b) \<le> 0) [alpha, zeta]"
    using az by simp
  have v: "Array_sort (compareMovies ascii_host ?F) [zeta, alpha] = [alpha, zeta]" by code_simp
  note idem = title_sort_idempotent [OF t, of ascii_host]
  show ?thesis
    using idem [of "[alpha, zeta]", THEN conjunct1] idem [of "[zeta, alpha]", THEN conjunct2] t c az s v
    by simp
qed

text \<open>
  C9. Computing the view list leaves the raw list as it was: \<open>filter\<close> allocates the
  array that \<open>sort\<close> then reorders in place, so every array of the store before the run,
  the raw list among them, is unchanged after it, and the new array holds the view list.
  A second run from the resulting store produces an array with the same contents, and
  leaves the raw list and the first view list alone.
\<close>

theorem pipeline_leaves_raw_list:
  assumes "movies_ref < length st"
  shows "\<exists>view st'.
           filteredMovies_store h movies_ref F st = Some (view, st')
         \<and> length st \<le> view \<and> view < length st'
         \<and> take (length st) st' = st
         \<and> st' ! movies_ref = st ! movies_ref
         \<and> st' ! view = filteredMovies h (st ! movies_ref) F
         \<and> (\<exists>view2 st''.
               filteredMovies_store h movies_ref F st' = Some (view2, st'')
             \<and> st'' ! view2 = st' ! view
             \<and> st'' ! view = st' ! view
             \<and> st'' ! movies_ref = st ! movies_ref)"
proof -
  have run: "filteredMovies_store h r F s
       = Some (length s, s @ [filteredMovies h (s ! r) F])" if "r < length s" for r s
    using that
    by (simp add: filteredMovies_store_def store_filter_def store_sort_def filteredMovies_def)
  define st1 where "st1 = st @ [filteredMovies h (st ! movies_ref) F]"
  define st2 where "st2 = st1 @ [filteredMovies h (st1 ! movies_ref) F]"
  have first: "filteredMovies_store h movies_ref F st = Some (length st, st1)"
    unfolding st1_def using assms by (rule run)
  have fresh: "length st \<le> length st" "length st < length st1"
    by (simp_all add: st1_def)
  have kept: "take (length st) st1 = st"
    by (simp add: st1_def)
  have raw: "st1 ! movies_ref = st ! movies_ref"
    using assms by (simp add: st1_def nth_append)
  have view: "st1 ! length st = filteredMovies h (st ! movies_ref) F"
    by (simp add: st1_def)
  have second: "filteredMovies_store h movies_ref F st1 = Some (length st1, st2)"
    unfolding st2_def using assms by (intro run) (simp add: st1_def)
  have view2: "st2 ! length st1 = st1 ! length st"
    by (simp add: st2_def raw view)
  have view_kept: "st2 ! length st = st1 ! length st"
    by (simp add: st2_def st1_def nth_append)
  have raw2: "st2 ! movies_ref = st ! movies_ref"
    using assms raw by (simp add: st2_def st1_def nth_append)
  from second view2 view_kept raw2
  have again: "\<exists>view2 st''.
               filteredMovies_store h movies_ref F st1 = Some (view2, st'')
             \<and> st'' ! view2 = st1 ! length st
             \<and> st'' ! length st = st1 ! length st
             \<and> st'' ! movies_ref = st ! movies_ref"
    by blast
  from first fresh kept raw view again show ?thesis
    by blast
qed

theorem pipeline_leaves_raw_list_witness:
  "(0::nat) < length [[zeta, alpha]]
   \<and> filteredMovies_store ascii_host 0 \<lparr>searchTerm = [], sortBy = js ''Title''\<rparr> [[zeta, alpha]]
       = Some (1, [[zeta, alpha], [alpha, zeta]])"
proof -
  have a: "(0::nat) < length [[zeta, alpha]]" by simp
  have v: "filteredMovies ascii_host [zeta, alpha] \<lparr>searchTerm = [], sortBy = js ''Title''\<rparr> = [alpha, zeta]"
    by code_simp
  obtain view st' where
    "filteredMovies_store ascii_host 0 \<lparr>searchTerm = [], sortBy = js ''Title''\<rparr> [[zeta, alpha]] = Some (view, st')"
    "length [[zeta, alpha]] \<le> view" "view < length st'" "take (length [[zeta, alpha]]) st' = [[zeta, alpha]]"
    "st' ! view = filteredMovies ascii_host ([[zeta, alpha]] ! 0) \<lparr>searchTerm = [], sortBy = js ''Title''\<rparr>"
    using pipeline_leaves_raw_list [OF a, of ascii_host "\<lparr>searchTerm = [], sortBy = js ''Title''\<rparr>"]
    by blast
  moreover have "filteredMovies_store ascii_host 0 \<lparr>searchTerm = [], sortBy = js ''Title''\<rparr> [[zeta, alpha]]
       = Some (1, [[zeta, alpha], filteredMovies ascii_host [zeta, alpha] \<lparr>searchTerm = [], sortBy = js ''Title''\<rparr>])"
    by (simp add: filteredMovies_store_def store_filter_def store_sort_def filteredMovies_def)
  ultimately show ?thesis using v by simp
qed

section \<open>Properties of the fetch lifecycle\<close>

text \<open>
  C5. When the fetch resolves with a response whose status is not ok, the stored error
  is the message \<open>Failed to fetch movies\<close> and the component renders the error view with
  exactly that message, whatever the state was before.
\<close>

theorem http_not_ok_failed_to_fetch:
  assumes "\<not> ok response"
  shows "error (fetchMovies (Fulfilled response) s) = Some (js ''Failed to fetch movies'')
       \<and> lifecycle_of (fetchMovies (Fulfilled response) s) = Error (js ''Failed to fetch movies'')"
proof -
  have "try_block (Fulfilled response) s
          = Inl (ErrorInstance (js ''Failed to fetch movies''), s\<lparr>isLoading := True\<rparr>)"
    using assms by (simp add: try_block_def)
  then have after: "fetchMovies (Fulfilled response) s
          = (catch_block (ErrorInstance (js ''Failed to fetch movies'')) (s\<lparr>isLoading := True\<rparr>))\<lparr>isLoading := False\<rparr>"
    by (rule fetchMovies_throw)
  have e: "error (fetchMovies (Fulfilled response) s) = Some (js ''Failed to fetch movies'')"
    unfolding after by (simp add: catch_block_def)
  have l: "\<not> isLoading (fetchMovies (Fulfilled response) s)"
    unfolding after by simp
  show ?thesis using e lifecycle_of_error [OF l e message_literals(1)] by simp
qed

theorem http_not_ok_failed_to_fetch_witness:
  "\<not> ok \<lparr>ok = False, json = Fulfilled [zeta]\<rparr>
   \<and> lifecycle_of (fetchMovies (Fulfilled \<lparr>ok = False, json = Fulfilled [zeta]\<rparr>) initial_state)
       = Error (js ''Failed to fetch movies'')"
  using http_not_ok_failed_to_fetch [of "\<lparr>ok = False, json = Fulfilled [zeta]\<rparr>" initial_state]
  by simp

text \<open>
  C6. The claim is right and the render misses a case. When the fetch rejects with an
  \<open>Error\<close> instance whose message is the empty string, the catch stores the empty string,
  the test \<open>if (error)\<close> reads it as no error, and the failed fetch renders the list view:
  neither the failure's message nor \<open>An error occurred\<close> is shown.
\<close>

theorem empty_message_renders_list:
  "lifecycle_of (fetchMovies (Rejected (ErrorInstance [])) initial_state) = Ready []
   \<and> lifecycle_of (fetchMovies (Rejected (ErrorInstance [])) initial_state) \<noteq> Error []
   \<and> lifecycle_of (fetchMovies (Rejected (ErrorInstance [])) initial_state)
       \<noteq> Error (js ''An error occurred'')
   \<and> error (fetchMovies (Rejected (ErrorInstance [])) initial_state) = Some []"
  by (simp add: fetchMovies_def try_block_def catch_block_def lifecycle_of_def truthy_def
      initial_state_def)

text \<open>
  Every other failure is shown: an \<open>Error\<close> instance with a non-empty message renders
  the error view with that message, and a thrown value that is not an \<open>Error\<close> instance
  renders it with \<open>An error occurred\<close>.
\<close>

lemma failure_message_shown:
  assumes "outcome = Rejected err
           \<or> (outcome = Fulfilled response \<and> ok response \<and> json response = Rejected err)"
  shows "(err = ErrorInstance message \<and> message \<noteq> [] \<longrightarrow>
            lifecycle_of (fetchMovies outcome s) = Error message)
       \<and> (err = OtherValue \<longrightarrow>
            lifecycle_of (fetchMovies outcome s) = Error (js ''An error occurred''))"
proof -
  have "try_block outcome s = Inl (err, s\<lparr>isLoading := True\<rparr>)"
    using assms by (auto simp: try_block_def)
  then have after: "fetchMovies outcome s
          = (catch_block err (s\<lparr>isLoading := True\<rparr>))\<lparr>isLoading := False\<rparr>"
    by (rule fetchMovies_throw)
  have l: "\<not> isLoading (fetchMovies outcome s)"
    unfolding after by simp
  have own: "lifecycle_of (fetchMovies outcome s) = Error message"
    if "err = ErrorInstance message" "message \<noteq> []"
  proof -
    have "error (fetchMovies outcome s) = Some message"
      unfolding after using that by (simp add: catch_block_def)
    then show ?thesis using l that by (intro lifecycle_of_error)
  qed
  have generic: "lifecycle_of (fetchMovies outcome s) = Error (js ''An error occurred'')"
    if "err = OtherValue"
  proof -
    have "error (fetchMovies outcome s) = Some (js ''An error occurred'')"
      unfolding after using that by (simp add: catch_block_def)
    then show ?thesis using l message_literals(2) by (intro lifecycle_of_error)
  qed
  show ?thesis using own generic by blast
qed

text \<open>
  C7. In every reachable state exactly one of the three conditions holds: the loading
  flag is set, a (truthy) error is stored, or neither; and the view rendered is the
  loading view, the error view or the list view accordingly.
\<close>

theorem lifecycle_exactly_one:
  assumes "reachable s"
  shows "((loading_active s \<and> \<not> error_active s \<and> \<not> ready_active s)
          \<or> (\<not> loading_active s \<and> error_active s \<and> \<not> ready_active s)
          \<or> (\<not> loading_active s \<and> \<not> error_active s \<and> ready_active s))
       \<and> (loading_active s \<longleftrightarrow> lifecycle_of s = Loading)
       \<and> (error_active s \<longleftrightarrow> (\<exists>message. lifecycle_of s = Error message))
       \<and> (ready_active s \<longleftrightarrow> lifecycle_of s = Ready (movies s))"
proof (cases "isLoading s")
  case True
  then have "error s = None" using assms by (rule reachable_loading_no_error [rotated])
  then show ?thesis
    using True by (simp add: loading_active_def error_active_def ready_active_def
        lifecycle_of_def truthy_def)
next
  case False
  then show ?thesis
    by (simp add: loading_active_def error_active_def ready_active_def lifecycle_of_def)
qed

theorem lifecycle_exactly_one_witness:
  "reachable (handleFilterChange Key_sortBy (js ''Year'') (fetchMovies (Rejected OtherValue) initial_state))
   \<and> \<not> loading_active (handleFilterChange Key_sortBy (js ''Year'') (fetchMovies (Rejected OtherValue) initial_state))
   \<and> error_active (handleFilterChange Key_sortBy (js ''Year'') (fetchMovies (Rejected OtherValue) initial_state))
   \<and> \<not> ready_active (handleFilterChange Key_sortBy (js ''Year'') (fetchMovies (Rejected OtherValue) initial_state))
   \<and> reachable initial_state
   \<and> loading_active initial_state \<and> \<not> error_active initial_state \<and> \<not> ready_active initial_state"
proof -
  let ?s = "handleFilterChange Key_sortBy (js ''Year'') (fetchMovies (Rejected OtherValue) initial_state)"
  have r: "reachable ?s"
    by (intro reachable.filter_changed reachable.fetched reachable.start)
  have e: "error_active ?s"
    by (simp add: error_active_def truthy_def handleFilterChange_def fetchMovies_def
        try_block_def catch_block_def js_def)
  have l: "loading_active initial_state"
    by (simp add: loading_active_def initial_state_def)
  show ?thesis
    using lifecycle_exactly_one [OF r, THEN conjunct1]
      lifecycle_exactly_one [OF reachable.start, THEN conjunct1] r e l reachable.start
    by blast
qed

text \<open>
  C8. After \<open>fetchMovies\<close> has run to completion the loading flag is false and the
  loading view is not rendered, for every outcome of the fetch and every state before it.
\<close>

theorem loading_flag_cleared:
  "isLoading (fetchMovies outcome s) = False \<and> lifecycle_of (fetchMovies outcome s) \<noteq> Loading"
  by (simp add: isLoading_fetchMovies lifecycle_of_def)

theorem loading_flag_cleared_witness:
  "isLoading (fetchMovies (Fulfilled \<lparr>ok = True, json = Fulfilled [zeta, alpha]\<rparr>) initial_state) = False
   \<and> isLoading (fetchMovies (Fulfilled \<lparr>ok = False, json = Fulfilled []\<rparr>) initial_state) = False
   \<and> isLoading (fetchMovies (Rejected (ErrorInstance (js ''Failed to fetch''))) initial_state) = False
   \<and> isLoading (fetchMovies (Fulfilled \<lparr>ok = True, json = Rejected OtherValue\<rparr>) initial_state) = False
   \<and> lifecycle_of (fetchMovies (Fulfilled \<lparr>ok = True, json = Fulfilled [zeta, alpha]\<rparr>) initial_state)
       = Ready [zeta, alpha]"
proof -
  have "lifecycle_of (fetchMovies (Fulfilled \<lparr>ok = True, json = Fulfilled [zeta, alpha]\<rparr>) initial_state)
       = Ready [zeta, alpha]"
    by (simp add: lifecycle_of_def fetchMovies_def try_block_def truthy_def initial_state_def)
  then show ?thesis
    using loading_flag_cleared [of "Fulfilled \<lparr>ok = True, json = Fulfilled [zeta, alpha]\<rparr>" initial_state]
      loading_flag_cleared [of "Fulfilled \<lparr>ok = False, json = Fulfilled []\<rparr>" initial_state]
      loading_flag_cleared [of "Rejected (ErrorInstance (js ''Failed to fetch''))" initial_state]
      loading_flag_cleared [of "Fulfilled \<lparr>ok = True, json = Rejected OtherValue\<rparr>" initial_state]
    by simp
qed

text \<open>
  C10. \<open>handleFilterChange\<close> sets the named field of the filter configuration to the
  given value and leaves the other field, the movies, the loading flag and the error as
  they were.
\<close>

theorem handleFilterChange_frame:
  "searchTerm (filters (handleFilterChange Key_searchTerm v s)) = v
   \<and> sortBy (filters (handleFilterChange Key_searchTerm v s)) = sortBy (filters s)
   \<and> sortBy (filters (handleFilterChange Key_sortBy v s)) = v
   \<and> searchTerm (filters (handleFilterChange Key_sortBy v s)) = searchTerm (filters s)
   \<and> movies (handleFilterChange key v s) = movies s
   \<and> isLoading (handleFilterChange key v s) = isLoading s
   \<and> error (handleFilterChange key v s) = error s"
  by (simp add: handleFilterChange_def)

theorem handleFilterChange_frame_witness:
  "sortBy (filters (handleFilterChange Key_searchTerm (js ''zz'') initial_state)) = js ''Title''
   \<and> searchTerm (filters (handleFilterChange Key_searchTerm (js ''zz'') initial_state)) = js ''zz''
   \<and> searchTerm (filters (handleFilterChange Key_sortBy (js ''Year'')
        (handleFilterChange Key_searchTerm (js ''zz'') initial_state))) = js ''zz''
   \<and> sortBy (filters (handleFilterChange Key_sortBy (js ''Year'')
        (handleFilterChange Key_searchTerm (js ''zz'') initial_state))) = js ''Year''"
  using handleFilterChange_frame [of "js ''zz''" initial_state Key_searchTerm]
    handleFilterChange_frame [of "js ''Year''" "handleFilterChange Key_searchTerm (js ''zz'') initial_state" Key_sortBy]
  by (simp add: initial_state_def)

end
